theory Spec2Isabelle
  imports Main "HOL-Library.Word"
begin

section \<open>Interaction events (main.cpp, lines 82-88)\<close>

text \<open>
  \<^verbatim>\<open>long\<close> is taken as the 64-bit two's complement integer of an LP64 platform and
  \<^verbatim>\<open>int\<close> as the 32-bit one; both are read with \<open>sint\<close>.
\<close>

type_synonym long = "64 word"
type_synonym cint = "32 word"

text \<open>
  \<^verbatim>\<open>enum EEvents { LCLK_U, RCLK_U, LCLK_D, RCLK_D, DDCLK, SCRL, MV };\<close>
  The enumeration is unscoped: \<^verbatim>\<open>load\<close> converts any \<^verbatim>\<open>int\<close> to it and \<^verbatim>\<open>save\<close>
  prints it as an integer. \<open>Unnamed i\<close> stands for a stored value \<open>i\<close> that none of the
  seven enumerators names; the program makes one only by the conversion in \<^verbatim>\<open>load\<close>.
\<close>

datatype EEvents = LCLK_U | RCLK_U | LCLK_D | RCLK_D | DDCLK | SCRL | MV | Unnamed int

text \<open>The integer an enumerator stands for: its position in the declaration.\<close>

fun int_of_EEvents :: "EEvents \<Rightarrow> int" where
  "int_of_EEvents LCLK_U = 0"
| "int_of_EEvents RCLK_U = 1"
| "int_of_EEvents LCLK_D = 2"
| "int_of_EEvents RCLK_D = 3"
| "int_of_EEvents DDCLK = 4"
| "int_of_EEvents SCRL = 5"
| "int_of_EEvents MV = 6"
| "int_of_EEvents (Unnamed i) = i"

text \<open>The conversion \<^verbatim>\<open>EEvents(type)\<close> of \<^verbatim>\<open>load\<close>.\<close>

definition EEvents_of_int :: "int \<Rightarrow> EEvents" where
  "EEvents_of_int i =
     (if i = 0 then LCLK_U else if i = 1 then RCLK_U else if i = 2 then LCLK_D
      else if i = 3 then RCLK_D else if i = 4 then DDCLK else if i = 5 then SCRL
      else if i = 6 then MV else Unnamed i)"

text \<open>A kind that one of the seven enumerators names.\<close>

fun named_kind :: "EEvents \<Rightarrow> bool" where
  "named_kind (Unnamed i) = False"
| "named_kind t = True"

text \<open>
  \<^verbatim>\<open>struct Event { EEvents type; long a, b; Event(EEvents t, long x = 0, long y = 0) }\<close>:
  the fields are \<open>evt_type\<close>, \<open>evt_a\<close>, \<open>evt_b\<close>; a call of the constructor with the
  kind alone is \<open>Event t 0 0\<close>.
\<close>

datatype Event = Event (evt_type: EEvents) (evt_a: long) (evt_b: long)

section \<open>The wrapped dispatcher\<close>

text \<open>
  \<^verbatim>\<open>MouseInput\<close> and \<^verbatim>\<open>WheelAxis\<close> are declared in GLScene.hpp. What the recorder does
  with the base class is to call one of its seven report methods; such a call, with its
  arguments, is a value of \<open>MouseInput_call\<close>, and every operation of the recorder
  returns the calls it made, in order.
\<close>

datatype WheelAxis = waVertical | waHorizontal

datatype MouseInput_call =
    MouseInput_left_click_down
  | MouseInput_left_click_up
  | MouseInput_right_click_down
  | MouseInput_right_click_up
  | MouseInput_double_click
  | MouseInput_scroll long long WheelAxis
  | MouseInput_move_to long long

section \<open>RecorderMouseInput (main.cpp, lines 90-167)\<close>

record RecorderMouseInput =
  m_events :: "Event list"
  m_recording :: bool
  m_playing :: bool

text \<open>The member initialisers: an empty log, \<^verbatim>\<open>m_recording = false, m_playing = false\<close>.\<close>

definition RecorderMouseInput_new :: RecorderMouseInput where
  "RecorderMouseInput_new = \<lparr>m_events = [], m_recording = False, m_playing = False\<rparr>"

subsection \<open>The report operations (lines 95-129)\<close>

definition left_click_down ::
  "RecorderMouseInput \<Rightarrow> MouseInput_call list \<times> RecorderMouseInput" where
  "left_click_down s =
     (let s1 = (if m_recording s then s\<lparr>m_events := m_events s @ [Event LCLK_D 0 0]\<rparr> else s)
      in (if \<not> m_playing s1 then [MouseInput_left_click_down] else [], s1))"

definition left_click_up ::
  "RecorderMouseInput \<Rightarrow> MouseInput_call list \<times> RecorderMouseInput" where
  "left_click_up s =
     (let s1 = (if m_recording s then s\<lparr>m_events := m_events s @ [Event LCLK_U 0 0]\<rparr> else s)
      in (if \<not> m_playing s1 then [MouseInput_left_click_up] else [], s1))"

definition right_click_down ::
  "RecorderMouseInput \<Rightarrow> MouseInput_call list \<times> RecorderMouseInput" where
  "right_click_down s =
     (let s1 = (if m_recording s then s\<lparr>m_events := m_events s @ [Event RCLK_D 0 0]\<rparr> else s)
      in (if \<not> m_playing s1 then [MouseInput_right_click_down] else [], s1))"

definition right_click_up ::
  "RecorderMouseInput \<Rightarrow> MouseInput_call list \<times> RecorderMouseInput" where
  "right_click_up s =
     (let s1 = (if m_recording s then s\<lparr>m_events := m_events s @ [Event RCLK_U 0 0]\<rparr> else s)
      in (if \<not> m_playing s1 then [MouseInput_right_click_up] else [], s1))"

definition double_click ::
  "RecorderMouseInput \<Rightarrow> MouseInput_call list \<times> RecorderMouseInput" where
  "double_click s =
     (let s1 = (if m_recording s then s\<lparr>m_events := m_events s @ [Event DDCLK 0 0]\<rparr> else s)
      in (if \<not> m_playing s1 then [MouseInput_double_click] else [], s1))"

definition scroll ::
  "long \<Rightarrow> long \<Rightarrow> WheelAxis \<Rightarrow> RecorderMouseInput \<Rightarrow> MouseInput_call list \<times> RecorderMouseInput" where
  "scroll v d wa s =
     (let s1 = (if m_recording s then s\<lparr>m_events := m_events s @ [Event SCRL v d]\<rparr> else s)
      in (if \<not> m_playing s1 then [MouseInput_scroll v d wa] else [], s1))"

definition move_to ::
  "long \<Rightarrow> long \<Rightarrow> RecorderMouseInput \<Rightarrow> MouseInput_call list \<times> RecorderMouseInput" where
  "move_to x y s =
     (let s1 = (if m_recording s then s\<lparr>m_events := m_events s @ [Event MV x y]\<rparr> else s)
      in (if \<not> m_playing s1 then [MouseInput_move_to x y] else [], s1))"

subsection \<open>The report operations, statement by statement\<close>

text \<open>
  The two statements of a report operation act in the order in which they stand, and the
  listeners that the base-class method calls can look at the recorder. To keep that
  order, the same seven bodies are written over a recorder paired with the effects so
  far: \<open>Emplace_back evt\<close> for \<^verbatim>\<open>m_events.emplace_back(...)\<close>, and \<open>Forward c r\<close> for the
  call \<open>c\<close> of the base-class method, made when the recorder is \<open>r\<close>.
\<close>

datatype effect = Emplace_back Event | Forward MouseInput_call RecorderMouseInput

type_synonym traced = "RecorderMouseInput \<times> effect list"

definition emplace_back :: "Event \<Rightarrow> traced \<Rightarrow> traced" where
  "emplace_back evt w =
     ((fst w)\<lparr>m_events := m_events (fst w) @ [evt]\<rparr>, snd w @ [Emplace_back evt])"

definition MouseInput_forward :: "MouseInput_call \<Rightarrow> traced \<Rightarrow> traced" where
  "MouseInput_forward c w = (fst w, snd w @ [Forward c (fst w)])"

definition left_click_down_steps :: "traced \<Rightarrow> traced" where
  "left_click_down_steps w =
     (let w1 = (if m_recording (fst w) then emplace_back (Event LCLK_D 0 0) w else w)
      in if \<not> m_playing (fst w1) then MouseInput_forward (MouseInput_left_click_down) w1 else w1)"

definition left_click_up_steps :: "traced \<Rightarrow> traced" where
  "left_click_up_steps w =
     (let w1 = (if m_recording (fst w) then emplace_back (Event LCLK_U 0 0) w else w)
      in if \<not> m_playing (fst w1) then MouseInput_forward (MouseInput_left_click_up) w1 else w1)"

definition right_click_down_steps :: "traced \<Rightarrow> traced" where
  "right_click_down_steps w =
     (let w1 = (if m_recording (fst w) then emplace_back (Event RCLK_D 0 0) w else w)
      in if \<not> m_playing (fst w1) then MouseInput_forward (MouseInput_right_click_down) w1 else w1)"

definition right_click_up_steps :: "traced \<Rightarrow> traced" where
  "right_click_up_steps w =
     (let w1 = (if m_recording (fst w) then emplace_back (Event RCLK_U 0 0) w else w)
      in if \<not> m_playing (fst w1) then MouseInput_forward (MouseInput_right_click_up) w1 else w1)"

definition double_click_steps :: "traced \<Rightarrow> traced" where
  "double_click_steps w =
     (let w1 = (if m_recording (fst w) then emplace_back (Event DDCLK 0 0) w else w)
      in if \<not> m_playing (fst w1) then MouseInput_forward (MouseInput_double_click) w1 else w1)"

definition scroll_steps :: "long \<Rightarrow> long \<Rightarrow> WheelAxis \<Rightarrow> traced \<Rightarrow> traced" where
  "scroll_steps v d wa w =
     (let w1 = (if m_recording (fst w) then emplace_back (Event SCRL v d) w else w)
      in if \<not> m_playing (fst w1) then MouseInput_forward (MouseInput_scroll v d wa) w1 else w1)"

definition move_to_steps :: "long \<Rightarrow> long \<Rightarrow> traced \<Rightarrow> traced" where
  "move_to_steps x y w =
     (let w1 = (if m_recording (fst w) then emplace_back (Event MV x y) w else w)
      in if \<not> m_playing (fst w1) then MouseInput_forward (MouseInput_move_to x y) w1 else w1)"

text \<open>The calls of the base-class methods among the effects, in order.\<close>

fun forwarded :: "effect list \<Rightarrow> MouseInput_call list" where
  "forwarded [] = []"
| "forwarded (Emplace_back evt # es) = forwarded es"
| "forwarded (Forward c r # es) = c # forwarded es"

subsection \<open>record and play (lines 147-166)\<close>

text \<open>\<^verbatim>\<open>void record(bool r) { m_recording = r; if (r) m_events.clear(); }\<close>\<close>

definition recorder_record :: "bool \<Rightarrow> RecorderMouseInput \<Rightarrow> RecorderMouseInput" where
  "recorder_record r s =
     (let s1 = s\<lparr>m_recording := r\<rparr> in if r then s1\<lparr>m_events := []\<rparr> else s1)"

text \<open>
  The \<^verbatim>\<open>switch\<close> of \<^verbatim>\<open>play\<close>: the base-class call made for one logged event. The switch
  has no \<^verbatim>\<open>default\<close>, so a value no enumerator names makes no call.
\<close>

fun play_event :: "Event \<Rightarrow> MouseInput_call list" where
  "play_event evt =
     (case evt_type evt of
        LCLK_U \<Rightarrow> [MouseInput_left_click_up]
      | LCLK_D \<Rightarrow> [MouseInput_left_click_down]
      | RCLK_U \<Rightarrow> [MouseInput_right_click_up]
      | RCLK_D \<Rightarrow> [MouseInput_right_click_down]
      | DDCLK \<Rightarrow> [MouseInput_double_click]
      | SCRL \<Rightarrow> [MouseInput_scroll (evt_a evt) (evt_b evt) waVertical]
      | MV \<Rightarrow> [MouseInput_move_to (evt_a evt) (evt_b evt)]
      | Unnamed i \<Rightarrow> [])"

text \<open>
  The \<^verbatim>\<open>for\<close> loop of \<^verbatim>\<open>play\<close>. After each event it calls \<^verbatim>\<open>wxSafeYield()\<close>, which lets
  the toolkit handle pending events with user input disabled; it calls no method of the
  recorder and no report method of the dispatcher, and adds nothing here.
\<close>

fun play_loop :: "Event list \<Rightarrow> MouseInput_call list" where
  "play_loop [] = []"
| "play_loop (evt # evs) = play_event evt @ play_loop evs"

text \<open>The recorder while the loop of \<^verbatim>\<open>play\<close> runs: after \<^verbatim>\<open>m_playing = true\<close> (line 151).\<close>

definition play_running :: "RecorderMouseInput \<Rightarrow> RecorderMouseInput" where
  "play_running s = s\<lparr>m_playing := True\<rparr>"

definition play :: "RecorderMouseInput \<Rightarrow> MouseInput_call list \<times> RecorderMouseInput" where
  "play s =
     (let s1 = play_running s;
          calls = play_loop (m_events s1)
      in (calls, s1\<lparr>m_playing := False\<rparr>))"

section \<open>Stream text\<close>

text \<open>
  The C++ stream operations used by \<^verbatim>\<open>save\<close> and \<^verbatim>\<open>load\<close>, for the classic locale and
  the default format flags (decimal, \<^verbatim>\<open>skipws\<close>), on a stream without device errors.
\<close>

subsection \<open>Formatted output\<close>

definition digit_char :: "nat \<Rightarrow> char" where
  "digit_char n = ''0123456789'' ! (n mod 10)"

fun string_of_nat :: "nat \<Rightarrow> string" where
  "string_of_nat n =
     (if n < 10 then [digit_char n] else string_of_nat (n div 10) @ [digit_char n])"

declare string_of_nat.simps [simp del]

text \<open>\<^verbatim>\<open>operator<<\<close> for a signed integer: a minus sign for a negative value, no plus sign.\<close>

definition string_of_int :: "int \<Rightarrow> string" where
  "string_of_int i = (if i < 0 then CHR ''-'' # string_of_nat (nat (- i)) else string_of_nat (nat i))"

text \<open>\<^verbatim>\<open>std::endl\<close> writes a line feed (and flushes).\<close>

definition endl :: string where
  "endl = [CHR 0x0A]"

subsection \<open>Formatted input\<close>

text \<open>
  An input stream: the characters not yet read and the state bits. \<^verbatim>\<open>badbit\<close> is never
  set by the operations below and is left out, so \<^verbatim>\<open>good()\<close> is: neither bit set.
\<close>

record istream =
  buf :: string
  eofbit :: bool
  failbit :: bool

definition istream_of :: "string \<Rightarrow> istream" where
  "istream_of cs = \<lparr>buf = cs, eofbit = False, failbit = False\<rparr>"

definition good :: "istream \<Rightarrow> bool" where
  "good st = (\<not> eofbit st \<and> \<not> failbit st)"

definition isspace :: "char \<Rightarrow> bool" where
  "isspace c = (c = CHR '' '' \<or> c = CHR 0x09 \<or> c = CHR 0x0A \<or> c = CHR 0x0B \<or> c = CHR 0x0C \<or> c = CHR 0x0D)"

definition isdigit :: "char \<Rightarrow> bool" where
  "isdigit c = (48 \<le> (of_char c :: nat) \<and> (of_char c :: nat) \<le> 57)"

definition digit_val :: "char \<Rightarrow> nat" where
  "digit_val c = of_char c - 48"

definition nat_of_digits :: "string \<Rightarrow> nat" where
  "nat_of_digits ds = foldl (\<lambda>acc c. 10 * acc + digit_val c) 0 ds"

text \<open>
  \<^verbatim>\<open>stream >> x\<close> for a signed integer type with the range \<open>lo .. hi\<close>: the stream
  afterwards and the value stored in \<open>x\<close>, \<open>None\<close> when nothing is stored and \<open>x\<close>
  keeps what it held. The sentry fails, and nothing is stored, when the stream is not
  good (then \<^verbatim>\<open>failbit\<close> is set) or when only white space is left (then \<^verbatim>\<open>eofbit\<close> and
  \<^verbatim>\<open>failbit\<close> are set). Otherwise an optional sign and the digits that follow are read;
  reaching the end of the input while reading sets \<^verbatim>\<open>eofbit\<close>; no digit stores 0 and
  sets \<^verbatim>\<open>failbit\<close>; a value out of range stores the nearest bound and sets \<^verbatim>\<open>failbit\<close>.
\<close>

definition get_int :: "int \<Rightarrow> int \<Rightarrow> istream \<Rightarrow> istream \<times> int option" where
  "get_int lo hi st =
     (if \<not> good st then (st\<lparr>failbit := True\<rparr>, None)
      else
        let r = dropWhile isspace (buf st) in
        if r = [] then (st\<lparr>buf := [], eofbit := True, failbit := True\<rparr>, None)
        else
          let neg = (hd r = CHR ''-'');
              r1 = (if hd r = CHR ''-'' \<or> hd r = CHR ''+'' then tl r else r);
              ds = takeWhile isdigit r1;
              r2 = dropWhile isdigit r1;
              n = (if neg then - int (nat_of_digits ds) else int (nat_of_digits ds))
          in (st\<lparr>buf := r2, eofbit := (r2 = []), failbit := (ds = [] \<or> n < lo \<or> hi < n)\<rparr>,
              Some (if ds = [] then 0 else max lo (min hi n))))"

text \<open>\<^verbatim>\<open>stream >> type\<close> with \<^verbatim>\<open>int type\<close>, and \<^verbatim>\<open>stream >> a\<close> with \<^verbatim>\<open>long a\<close>.\<close>

definition extract_int :: "istream \<Rightarrow> cint \<Rightarrow> istream \<times> cint" where
  "extract_int st v =
     (case get_int (- (2 ^ 31)) (2 ^ 31 - 1) st of
        (st1, None) \<Rightarrow> (st1, v)
      | (st1, Some n) \<Rightarrow> (st1, word_of_int n))"

definition extract_long :: "istream \<Rightarrow> long \<Rightarrow> istream \<times> long" where
  "extract_long st v =
     (case get_int (- (2 ^ 63)) (2 ^ 63 - 1) st of
        (st1, None) \<Rightarrow> (st1, v)
      | (st1, Some n) \<Rightarrow> (st1, word_of_int n))"

section \<open>save and load (main.cpp, lines 131-145)\<close>

text \<open>
  \<^verbatim>\<open>for (const Event &evt : m_events)
    stream << evt.type << " " << evt.a << " " << evt.b << std::endl;\<close>
  The output stream is the text written to it so far.
\<close>

definition save_line :: "Event \<Rightarrow> string" where
  "save_line evt =
     string_of_int (int_of_EEvents (evt_type evt)) @ '' '' @ string_of_int (sint (evt_a evt))
       @ '' '' @ string_of_int (sint (evt_b evt)) @ endl"

fun save_loop :: "Event list \<Rightarrow> string \<Rightarrow> string" where
  "save_loop [] stream = stream"
| "save_loop (evt # evs) stream = save_loop evs (stream @ save_line evt)"

definition save :: "RecorderMouseInput \<Rightarrow> string \<Rightarrow> string" where
  "save s stream = save_loop (m_events s) stream"

text \<open>
  The body of the loop of \<^verbatim>\<open>load\<close>:
  \<^verbatim>\<open>int type; long a, b; stream >> type >> a >> b;
  m_events.emplace_back(EEvents(type), a, b);\<close>
  The three locals are not initialised; \<open>(t0, a0, b0)\<close> are the values they hold when
  the body is entered, which an extraction that stores nothing leaves in place.
\<close>

definition load_body :: "cint \<times> long \<times> long \<Rightarrow> istream \<Rightarrow> istream \<times> Event" where
  "load_body junk st =
     (case junk of (t0, a0, b0) \<Rightarrow>
        let (st1, type) = extract_int st t0;
            (st2, a) = extract_long st1 a0;
            (st3, b) = extract_long st2 b0
        in (st3, Event (EEvents_of_int (sint type)) a b))"

lemma dropWhile_shorter: "takeWhile P xs \<noteq> [] \<Longrightarrow> length (dropWhile P xs) < length xs"
  by (cases xs) (auto simp: le_imp_less_Suc length_dropWhile_le split: if_splits)

lemma get_int_buf_le: "length (buf (fst (get_int lo hi st))) \<le> length (buf st)"
proof -
  define r where "r = dropWhile isspace (buf st)"
  have r: "length r \<le> length (buf st)" unfolding r_def by (rule length_dropWhile_le)
  have "length (dropWhile isdigit (tl r)) \<le> length (tl r)" by (rule length_dropWhile_le)
  then have a: "length (dropWhile isdigit (tl r)) \<le> length (buf st)" using r by simp
  have "length (dropWhile isdigit r) \<le> length r" by (rule length_dropWhile_le)
  then have b: "length (dropWhile isdigit r) \<le> length (buf st)" using r by simp
  show ?thesis using a b unfolding r_def by (simp add: get_int_def Let_def)
qed

lemma get_int_buf_less:
  assumes "good (fst (get_int lo hi st))"
  shows "length (buf (fst (get_int lo hi st))) < length (buf st)"
proof -
  define r where "r = dropWhile isspace (buf st)"
  define r1 where "r1 = (if hd r = CHR ''-'' \<or> hd r = CHR ''+'' then tl r else r)"
  define n where "n = (if hd r = CHR ''-'' then - int (nat_of_digits (takeWhile isdigit r1))
                   else int (nat_of_digits (takeWhile isdigit r1)))"
  have unf: "get_int lo hi st =
     (if \<not> good st then (st\<lparr>failbit := True\<rparr>, None)
      else if r = [] then (st\<lparr>buf := [], eofbit := True, failbit := True\<rparr>, None)
      else (st\<lparr>buf := dropWhile isdigit r1, eofbit := (dropWhile isdigit r1 = []),
                failbit := (takeWhile isdigit r1 = [] \<or> n < lo \<or> hi < n)\<rparr>,
            Some (if takeWhile isdigit r1 = [] then 0 else max lo (min hi n))))"
    unfolding get_int_def Let_def r_def r1_def n_def ..
  from assms have g: "good st" and ne: "r \<noteq> []" and ds: "takeWhile isdigit r1 \<noteq> []"
    unfolding unf by (auto simp: good_def split: if_splits)
  have "length (dropWhile isdigit r1) < length r1" using ds by (rule dropWhile_shorter)
  also have "length r1 \<le> length r" unfolding r1_def by simp
  also have "length r \<le> length (buf st)" unfolding r_def by (rule length_dropWhile_le)
  finally have "length (dropWhile isdigit r1) < length (buf st)" .
  then show ?thesis unfolding unf using g ne by simp
qed

lemma extract_int_fst: "fst (extract_int st v) = fst (get_int (- (2 ^ 31)) (2 ^ 31 - 1) st)"
  by (simp add: extract_int_def split: prod.split option.split)

lemma extract_long_fst: "fst (extract_long st v) = fst (get_int (- (2 ^ 63)) (2 ^ 63 - 1) st)"
  by (simp add: extract_long_def split: prod.split option.split)

lemma extract_int_buf_le: "length (buf (fst (extract_int st v))) \<le> length (buf st)"
  unfolding extract_int_fst by (rule get_int_buf_le)

lemma extract_long_buf_le: "length (buf (fst (extract_long st v))) \<le> length (buf st)"
  unfolding extract_long_fst by (rule get_int_buf_le)

lemma extract_long_buf_less:
  "good (fst (extract_long st v)) \<Longrightarrow> length (buf (fst (extract_long st v))) < length (buf st)"
  unfolding extract_long_fst by (rule get_int_buf_less)

lemma load_body_buf_less:
  assumes "good (fst (load_body junk st))"
  shows "length (buf (fst (load_body junk st))) < length (buf st)"
proof -
  obtain t0 a0 b0 where j: "junk = (t0, a0, b0)" by (cases junk)
  let ?st1 = "fst (extract_int st t0)"
  let ?st2 = "fst (extract_long ?st1 a0)"
  let ?st3 = "fst (extract_long ?st2 b0)"
  have e: "fst (load_body junk st) = ?st3" by (simp add: load_body_def j split_beta)
  have "length (buf ?st3) < length (buf ?st2)"
    using assms unfolding e by (rule extract_long_buf_less)
  also have "\<dots> \<le> length (buf ?st1)" by (rule extract_long_buf_le)
  also have "\<dots> \<le> length (buf st)" by (rule extract_int_buf_le)
  finally show ?thesis unfolding e .
qed

function load_loop :: "cint \<times> long \<times> long \<Rightarrow> istream \<Rightarrow> Event list \<Rightarrow> istream \<times> Event list" where
  "load_loop junk stream evs =
     (if good stream
      then load_loop junk (fst (load_body junk stream)) (evs @ [snd (load_body junk stream)])
      else (stream, evs))"
  by pat_completeness auto
termination
proof (relation "measure (\<lambda>(junk, stream, evs). if good stream then Suc (length (buf stream)) else 0)")
  show "wf (measure (\<lambda>(junk, stream, evs). if good stream then Suc (length (buf stream)) else 0))"
    by simp
next
  fix junk :: "cint \<times> long \<times> long" and stream :: istream and evs :: "Event list"
  assume "good stream"
  then show "((junk, fst (load_body junk stream), evs @ [snd (load_body junk stream)]), junk, stream, evs)
    \<in> measure (\<lambda>(junk, stream, evs). if good stream then Suc (length (buf stream)) else 0)"
    using load_body_buf_less [of junk stream] by simp
qed

declare load_loop.simps [simp del]

definition load :: "cint \<times> long \<times> long \<Rightarrow> istream \<Rightarrow> RecorderMouseInput \<Rightarrow> istream \<times> RecorderMouseInput" where
  "load junk stream s =
     (let s1 = s\<lparr>m_events := []\<rparr>;
          r = load_loop junk stream (m_events s1)
      in (fst r, s1\<lparr>m_events := snd r\<rparr>))"

section \<open>Sequences of calls on the recorder\<close>

text \<open>
  A live interaction: the canvas handlers bound in \<^verbatim>\<open>bind_canvas_events\<close> call the report
  methods of the recorder through the \<^verbatim>\<open>MouseInput\<close> interface. \<open>report c\<close> is the
  recorder's override of the method that \<open>c\<close> names, with the arguments of \<open>c\<close>.
\<close>

fun report :: "MouseInput_call \<Rightarrow> RecorderMouseInput \<Rightarrow> MouseInput_call list \<times> RecorderMouseInput" where
  "report MouseInput_left_click_down s = left_click_down s"
| "report MouseInput_left_click_up s = left_click_up s"
| "report MouseInput_right_click_down s = right_click_down s"
| "report MouseInput_right_click_up s = right_click_up s"
| "report MouseInput_double_click s = double_click s"
| "report (MouseInput_scroll v d wa) s = scroll v d wa s"
| "report (MouseInput_move_to x y) s = move_to x y s"

text \<open>A sequence of report calls, one after the other: the calls forwarded and the recorder left.\<close>

fun live :: "MouseInput_call list \<Rightarrow> RecorderMouseInput \<Rightarrow> MouseInput_call list \<times> RecorderMouseInput" where
  "live [] s = ([], s)"
| "live (c # cs) s =
     (let r1 = report c s; r2 = live cs (snd r1) in (fst r1 @ fst r2, snd r2))"

text \<open>
  A recording session as the Record button drives it: \<^verbatim>\<open>record(true)\<close>, the live
  interaction \<open>cs\<close>, \<^verbatim>\<open>record(false)\<close>.
\<close>

definition recorded :: "MouseInput_call list \<Rightarrow> RecorderMouseInput \<Rightarrow> RecorderMouseInput" where
  "recorded cs s = recorder_record False (snd (live cs (recorder_record True s)))"

text \<open>\<^verbatim>\<open>play()\<close> called \<open>n\<close> times in a row: the calls each invocation dispatched.\<close>

fun play_times :: "nat \<Rightarrow> RecorderMouseInput \<Rightarrow> MouseInput_call list list \<times> RecorderMouseInput" where
  "play_times 0 s = ([], s)"
| "play_times (Suc n) s =
     (let r1 = play s; r2 = play_times n (snd r1) in (fst r1 # fst r2, snd r2))"

text \<open>A call with the wheel axis of a scroll replaced by the vertical one.\<close>

fun with_vertical_axis :: "MouseInput_call \<Rightarrow> MouseInput_call" where
  "with_vertical_axis (MouseInput_scroll v d wa) = MouseInput_scroll v d waVertical"
| "with_vertical_axis c = c"

fun no_horizontal_scroll :: "MouseInput_call \<Rightarrow> bool" where
  "no_horizontal_scroll (MouseInput_scroll v d wa) = (wa = waVertical)"
| "no_horizontal_scroll c = True"

text \<open>
  The Controller is the listener of the dispatcher (\<^verbatim>\<open>ms.add_listener(m_ctl)\<close>); its
  class is in GLScene.hpp. \<open>ctl c\<close> is what it does to the scene on the call \<open>c\<close>, so a
  sequence of dispatched calls takes the scene \<open>sc\<close> to \<open>scene_after ctl calls sc\<close>.
\<close>

definition scene_after :: "(MouseInput_call \<Rightarrow> 'scene \<Rightarrow> 'scene) \<Rightarrow> MouseInput_call list \<Rightarrow> 'scene \<Rightarrow> 'scene" where
  "scene_after ctl calls sc = fold ctl calls sc"

text \<open>
  The public operations of the recorder as values, and a run of complete calls from a
  given recorder. \<open>Op_load junk cs\<close> loads from a fresh stream over the text \<open>cs\<close>.
\<close>

datatype RecorderMouseInput_op =
    Op_report MouseInput_call
  | Op_record bool
  | Op_play
  | Op_load "cint \<times> long \<times> long" string

fun run_op :: "RecorderMouseInput_op \<Rightarrow> RecorderMouseInput \<Rightarrow> RecorderMouseInput" where
  "run_op (Op_report c) s = snd (report c s)"
| "run_op (Op_record r) s = recorder_record r s"
| "run_op Op_play s = snd (play s)"
| "run_op (Op_load junk cs) s = snd (load junk (istream_of cs) s)"

fun run :: "RecorderMouseInput_op list \<Rightarrow> RecorderMouseInput \<Rightarrow> RecorderMouseInput" where
  "run [] s = s"
| "run (x # xs) s = run xs (run_op x s)"

section \<open>The frame (main.cpp, lines 169-228 and 258-533)\<close>

subsection \<open>CSG settings and the convexity control (lines 431-439)\<close>

text \<open>
  Modelled from the spec: \<^verbatim>\<open>CSGSettings\<close> and the \<^verbatim>\<open>Display\<close> base of the canvas are
  declared in GLScene.hpp, which is not among the sources. The settings are a value
  with five fields; \<^verbatim>\<open>set_convexity\<close> keeps the prior value on an input that is not
  positive; the display hands out a copy of its settings and takes a new value whole.
  \<open>applied\<close> lists the values handed to \<^verbatim>\<open>apply_csgsettings\<close>, in order.
\<close>

type_synonym unsigned = "32 word"

datatype Algorithm = Auto | Goldfeather | SCS
datatype DepthAlgorithm = DepthOff | OcclusionQuery | DepthOn
datatype Optimization = OptDefault | OptForceOn | OptOn | OptOff

record CSGSettings =
  enabled :: bool
  algorithm :: Algorithm
  depthAlgorithm :: DepthAlgorithm
  optimization :: Optimization
  convexity :: unsigned

definition set_convexity :: "unsigned \<Rightarrow> CSGSettings \<Rightarrow> CSGSettings" where
  "set_convexity c settings = (if 0 < c then settings\<lparr>convexity := c\<rparr> else settings)"

definition get_convexity :: "CSGSettings \<Rightarrow> unsigned" where
  "get_convexity settings = convexity settings"

record Canvas =
  m_csgsettings :: CSGSettings
  applied :: "CSGSettings list"

definition get_csgsettings :: "Canvas \<Rightarrow> CSGSettings" where
  "get_csgsettings canvas = m_csgsettings canvas"

definition apply_csgsettings :: "CSGSettings \<Rightarrow> Canvas \<Rightarrow> Canvas" where
  "apply_csgsettings settings canvas =
     canvas\<lparr>m_csgsettings := settings, applied := applied canvas @ [settings]\<rparr>"

text \<open>
  The handler of the convexity spin control; \<open>c\<close> is \<^verbatim>\<open>convexity_spin->GetValue()\<close>, an
  \<^verbatim>\<open>int\<close>. \<^verbatim>\<open>unsigned(c)\<close> keeps the 32 bits of \<open>c\<close>.
  \<^verbatim>\<open>CSGSettings settings = m_canvas->get_csgsettings();
  if (c > 0) { settings.set_convexity(unsigned(c)); m_canvas->apply_csgsettings(settings); }\<close>
\<close>

definition convexity_spin_handler :: "cint \<Rightarrow> Canvas \<Rightarrow> Canvas" where
  "convexity_spin_handler c canvas =
     (let settings = get_csgsettings canvas
      in if 0 < sint c then apply_csgsettings (set_convexity c settings) canvas else canvas)"

subsection \<open>The model-load job (lines 179-212 and 510-533)\<close>



text \<open>How far the print object of the job has come.\<close>

datatype SLAPrint = SLAPrint_new | SLAPrint_applied | SLAPrint_processed

text \<open>
  The job: its file name and print, the status reports it has made through
  \<^verbatim>\<open>update_status\<close> (percent and text, in order), and how often \<^verbatim>\<open>finalize\<close> has run.
\<close>

record SLAJob =
  m_fname :: string
  m_print :: "SLAPrint option"
  reports :: "(int \<times> string) list"
  finalized :: nat





text \<open>The toolkit's events and files that the frame's handlers touch.\<close>

datatype GL_call = Camera_reset | Controller_on_scene_updated

record MyFrame =
  m_mouse :: RecorderMouseInput
  m_ui_job :: "SLAJob option"
  m_stbar_status_text :: string
  m_scene_print :: "SLAPrint option"
  gl_calls :: "GL_call list"
  files :: "(string \<times> string) list"

definition MyFrame_new :: MyFrame where
  "MyFrame_new =
     \<lparr>m_mouse = RecorderMouseInput_new, m_ui_job = None, m_stbar_status_text = [],
      m_scene_print = None, gl_calls = [], files = []\<rparr>"





subsection \<open>The Record button (lines 441-467)\<close>

text \<open>
  The handler of the toggle button. Its inputs: \<open>pressed\<close> is \<^verbatim>\<open>record_btn->GetValue()\<close>,
  \<open>has_camera\<close> whether \<^verbatim>\<open>m_canvas->camera()\<close> is set, \<open>dlg\<close> the path chosen in the file
  dialog when it ends with OK, \<open>stream_good\<close> whether the output file could be opened.
\<close>

definition record_btn_handler :: "bool \<Rightarrow> bool \<Rightarrow> string option \<Rightarrow> bool \<Rightarrow> MyFrame \<Rightarrow> MyFrame" where
  "record_btn_handler pressed has_camera dlg stream_good f =
     (case m_ui_job f of
        None \<Rightarrow> f\<lparr>m_stbar_status_text := ''No project loaded!''\<rparr>
      | Some job \<Rightarrow>
          if pressed then
            let f1 = (if has_camera then f\<lparr>gl_calls := gl_calls f @ [Camera_reset]\<rparr> else f);
                f2 = f1\<lparr>gl_calls := gl_calls f1 @ [Controller_on_scene_updated]\<rparr>
            in f2\<lparr>m_mouse := recorder_record True (m_mouse f2)\<rparr>
          else
            let f1 = f\<lparr>m_mouse := recorder_record False (m_mouse f)\<rparr> in
            (case dlg of
               None \<Rightarrow> f1
             | Some path \<Rightarrow>
                 if stream_good
                 then f1\<lparr>files := files f1 @ [(path, save (m_mouse f1) (m_fname job @ [CHR 0x0A]))]\<rparr>
                 else f1))"

section \<open>Properties of the recorder\<close>

lemma play_loop_append: "play_loop (xs @ ys) = play_loop xs @ play_loop ys"
  by (induction xs) simp_all

lemma report_playing: "m_playing (snd (report c s)) = m_playing s"
  by (cases c)
     (simp_all add: left_click_down_def left_click_up_def right_click_down_def
        right_click_up_def double_click_def scroll_def move_to_def Let_def)

lemma play_not_playing: "\<not> m_playing (snd (play s))"
  by (simp add: play_def play_running_def Let_def)

lemma load_playing: "m_playing (snd (load junk stream s)) = m_playing s"
  by (simp add: load_def Let_def)

lemma recorder_record_playing: "m_playing (recorder_record r s) = m_playing s"
  by (simp add: recorder_record_def Let_def)

lemma run_op_not_playing: "\<not> m_playing s \<Longrightarrow> \<not> m_playing (run_op x s)"
  by (cases x) (simp_all add: report_playing play_not_playing load_playing recorder_record_playing)

lemma run_not_playing: "\<not> m_playing s \<Longrightarrow> \<not> m_playing (run xs s)"
  by (induction xs arbitrary: s) (simp_all add: run_op_not_playing)

lemma play_idle: "\<not> m_playing s \<Longrightarrow> play s = (play_loop (m_events s), s)"
  by (simp add: play_def play_running_def Let_def)

text \<open>
  C5. Each of the seven report operations appends its event, with the parameters of the
  call, to the log exactly when the recorder is recording, and forwards the call to the
  base dispatcher exactly when the recorder is not playing; the flags stay as they are.
  The append comes before anything else: among the effects of the operation the
  \<open>Emplace_back\<close> stands first and the \<open>Forward\<close> after it, and the recorder in which the
  call is forwarded, the one the listeners find, already holds the event. The operations
  that return the forwarded calls and the recorder are these bodies with the order
  forgotten.
\<close>

theorem report_appends_then_forwards:
  "left_click_down s =
     (if m_playing s then [] else [MouseInput_left_click_down],
      if m_recording s then s\<lparr>m_events := m_events s @ [Event LCLK_D 0 0]\<rparr> else s)
   \<and> left_click_up s =
     (if m_playing s then [] else [MouseInput_left_click_up],
      if m_recording s then s\<lparr>m_events := m_events s @ [Event LCLK_U 0 0]\<rparr> else s)
   \<and> right_click_down s =
     (if m_playing s then [] else [MouseInput_right_click_down],
      if m_recording s then s\<lparr>m_events := m_events s @ [Event RCLK_D 0 0]\<rparr> else s)
   \<and> right_click_up s =
     (if m_playing s then [] else [MouseInput_right_click_up],
      if m_recording s then s\<lparr>m_events := m_events s @ [Event RCLK_U 0 0]\<rparr> else s)
   \<and> double_click s =
     (if m_playing s then [] else [MouseInput_double_click],
      if m_recording s then s\<lparr>m_events := m_events s @ [Event DDCLK 0 0]\<rparr> else s)
   \<and> scroll v d wa s =
     (if m_playing s then [] else [MouseInput_scroll v d wa],
      if m_recording s then s\<lparr>m_events := m_events s @ [Event SCRL v d]\<rparr> else s)
   \<and> move_to x y s =
     (if m_playing s then [] else [MouseInput_move_to x y],
      if m_recording s then s\<lparr>m_events := m_events s @ [Event MV x y]\<rparr> else s)
   \<and> left_click_down_steps (s, tr) =
     (if m_recording s then s\<lparr>m_events := m_events s @ [Event LCLK_D 0 0]\<rparr> else s,
      tr @ (if m_recording s then [Emplace_back (Event LCLK_D 0 0)] else [])
         @ (if m_playing s then []
            else [Forward (MouseInput_left_click_down)
                    (if m_recording s then s\<lparr>m_events := m_events s @ [Event LCLK_D 0 0]\<rparr> else s)]))
   \<and> left_click_up_steps (s, tr) =
     (if m_recording s then s\<lparr>m_events := m_events s @ [Event LCLK_U 0 0]\<rparr> else s,
      tr @ (if m_recording s then [Emplace_back (Event LCLK_U 0 0)] else [])
         @ (if m_playing s then []
            else [Forward (MouseInput_left_click_up)
                    (if m_recording s then s\<lparr>m_events := m_events s @ [Event LCLK_U 0 0]\<rparr> else s)]))
   \<and> right_click_down_steps (s, tr) =
     (if m_recording s then s\<lparr>m_events := m_events s @ [Event RCLK_D 0 0]\<rparr> else s,
      tr @ (if m_recording s then [Emplace_back (Event RCLK_D 0 0)] else [])
         @ (if m_playing s then []
            else [Forward (MouseInput_right_click_down)
                    (if m_recording s then s\<lparr>m_events := m_events s @ [Event RCLK_D 0 0]\<rparr> else s)]))
   \<and> right_click_up_steps (s, tr) =
     (if m_recording s then s\<lparr>m_events := m_events s @ [Event RCLK_U 0 0]\<rparr> else s,
      tr @ (if m_recording s then [Emplace_back (Event RCLK_U 0 0)] else [])
         @ (if m_playing s then []
            else [Forward (MouseInput_right_click_up)
                    (if m_recording s then s\<lparr>m_events := m_events s @ [Event RCLK_U 0 0]\<rparr> else s)]))
   \<and> double_click_steps (s, tr) =
     (if m_recording s then s\<lparr>m_events := m_events s @ [Event DDCLK 0 0]\<rparr> else s,
      tr @ (if m_recording s then [Emplace_back (Event DDCLK 0 0)] else [])
         @ (if m_playing s then []
            else [Forward (MouseInput_double_click)
                    (if m_recording s then s\<lparr>m_events := m_events s @ [Event DDCLK 0 0]\<rparr> else s)]))
   \<and> scroll_steps v d wa (s, tr) =
     (if m_recording s then s\<lparr>m_events := m_events s @ [Event SCRL v d]\<rparr> else s,
      tr @ (if m_recording s then [Emplace_back (Event SCRL v d)] else [])
         @ (if m_playing s then []
            else [Forward (MouseInput_scroll v d wa)
                    (if m_recording s then s\<lparr>m_events := m_events s @ [Event SCRL v d]\<rparr> else s)]))
   \<and> move_to_steps x y (s, tr) =
     (if m_recording s then s\<lparr>m_events := m_events s @ [Event MV x y]\<rparr> else s,
      tr @ (if m_recording s then [Emplace_back (Event MV x y)] else [])
         @ (if m_playing s then []
            else [Forward (MouseInput_move_to x y)
                    (if m_recording s then s\<lparr>m_events := m_events s @ [Event MV x y]\<rparr> else s)]))
   \<and> left_click_down s =
     (forwarded (snd (left_click_down_steps (s, []))), fst (left_click_down_steps (s, [])))
   \<and> left_click_up s =
     (forwarded (snd (left_click_up_steps (s, []))), fst (left_click_up_steps (s, [])))
   \<and> right_click_down s =
     (forwarded (snd (right_click_down_steps (s, []))), fst (right_click_down_steps (s, [])))
   \<and> right_click_up s =
     (forwarded (snd (right_click_up_steps (s, []))), fst (right_click_up_steps (s, [])))
   \<and> double_click s =
     (forwarded (snd (double_click_steps (s, []))), fst (double_click_steps (s, [])))
   \<and> scroll v d wa s =
     (forwarded (snd (scroll_steps v d wa (s, []))), fst (scroll_steps v d wa (s, [])))
   \<and> move_to x y s =
     (forwarded (snd (move_to_steps x y (s, []))), fst (move_to_steps x y (s, [])))"
proof -
  have pairs:
    "left_click_down s =
     (if m_playing s then [] else [MouseInput_left_click_down],
      if m_recording s then s\<lparr>m_events := m_events s @ [Event LCLK_D 0 0]\<rparr> else s)"
    "left_click_up s =
     (if m_playing s then [] else [MouseInput_left_click_up],
      if m_recording s then s\<lparr>m_events := m_events s @ [Event LCLK_U 0 0]\<rparr> else s)"
    "right_click_down s =
     (if m_playing s then [] else [MouseInput_right_click_down],
      if m_recording s then s\<lparr>m_events := m_events s @ [Event RCLK_D 0 0]\<rparr> else s)"
    "right_click_up s =
     (if m_playing s then [] else [MouseInput_right_click_up],
      if m_recording s then s\<lparr>m_events := m_events s @ [Event RCLK_U 0 0]\<rparr> else s)"
    "double_click s =
     (if m_playing s then [] else [MouseInput_double_click],
      if m_recording s then s\<lparr>m_events := m_events s @ [Event DDCLK 0 0]\<rparr> else s)"
    "scroll v d wa s =
     (if m_playing s then [] else [MouseInput_scroll v d wa],
      if m_recording s then s\<lparr>m_events := m_events s @ [Event SCRL v d]\<rparr> else s)"
    "move_to x y s =
     (if m_playing s then [] else [MouseInput_move_to x y],
      if m_recording s then s\<lparr>m_events := m_events s @ [Event MV x y]\<rparr> else s)"
    by (simp_all add: left_click_down_def left_click_up_def right_click_down_def
          right_click_up_def double_click_def scroll_def move_to_def Let_def)
  have steps:
    "left_click_down_steps (s, tr) =
     (if m_recording s then s\<lparr>m_events := m_events s @ [Event LCLK_D 0 0]\<rparr> else s,
      tr @ (if m_recording s then [Emplace_back (Event LCLK_D 0 0)] else [])
         @ (if m_playing s then []
            else [Forward (MouseInput_left_click_down)
                    (if m_recording s then s\<lparr>m_events := m_events s @ [Event LCLK_D 0 0]\<rparr> else s)]))"
    "left_click_up_steps (s, tr) =
     (if m_recording s then s\<lparr>m_events := m_events s @ [Event LCLK_U 0 0]\<rparr> else s,
      tr @ (if m_recording s then [Emplace_back (Event LCLK_U 0 0)] else [])
         @ (if m_playing s then []
            else [Forward (MouseInput_left_click_up)
                    (if m_recording s then s\<lparr>m_events := m_events s @ [Event LCLK_U 0 0]\<rparr> else s)]))"
    "right_click_down_steps (s, tr) =
     (if m_recording s then s\<lparr>m_events := m_events s @ [Event RCLK_D 0 0]\<rparr> else s,
      tr @ (if m_recording s then [Emplace_back (Event RCLK_D 0 0)] else [])
         @ (if m_playing s then []
            else [Forward (MouseInput_right_click_down)
                    (if m_recording s then s\<lparr>m_events := m_events s @ [Event RCLK_D 0 0]\<rparr> else s)]))"
    "right_click_up_steps (s, tr) =
     (if m_recording s then s\<lparr>m_events := m_events s @ [Event RCLK_U 0 0]\<rparr> else s,
      tr @ (if m_recording s then [Emplace_back (Event RCLK_U 0 0)] else [])
         @ (if m_playing s then []
            else [Forward (MouseInput_right_click_up)
                    (if m_recording s then s\<lparr>m_events := m_events s @ [Event RCLK_U 0 0]\<rparr> else s)]))"
    "double_click_steps (s, tr) =
     (if m_recording s then s\<lparr>m_events := m_events s @ [Event DDCLK 0 0]\<rparr> else s,
      tr @ (if m_recording s then [Emplace_back (Event DDCLK 0 0)] else [])
         @ (if m_playing s then []
            else [Forward (MouseInput_double_click)
                    (if m_recording s then s\<lparr>m_events := m_events s @ [Event DDCLK 0 0]\<rparr> else s)]))"
    "scroll_steps v d wa (s, tr) =
     (if m_recording s then s\<lparr>m_events := m_events s @ [Event SCRL v d]\<rparr> else s,
      tr @ (if m_recording s then [Emplace_back (Event SCRL v d)] else [])
         @ (if m_playing s then []
            else [Forward (MouseInput_scroll v d wa)
                    (if m_recording s then s\<lparr>m_events := m_events s @ [Event SCRL v d]\<rparr> else s)]))"
    "move_to_steps x y (s, tr) =
     (if m_recording s then s\<lparr>m_events := m_events s @ [Event MV x y]\<rparr> else s,
      tr @ (if m_recording s then [Emplace_back (Event MV x y)] else [])
         @ (if m_playing s then []
            else [Forward (MouseInput_move_to x y)
                    (if m_recording s then s\<lparr>m_events := m_events s @ [Event MV x y]\<rparr> else s)]))" for tr
    by (simp_all add: left_click_down_steps_def left_click_up_steps_def right_click_down_steps_def
          right_click_up_steps_def double_click_steps_def scroll_steps_def move_to_steps_def
          emplace_back_def MouseInput_forward_def Let_def)
  have agree:
    "left_click_down s =
     (forwarded (snd (left_click_down_steps (s, []))), fst (left_click_down_steps (s, [])))"
    "left_click_up s =
     (forwarded (snd (left_click_up_steps (s, []))), fst (left_click_up_steps (s, [])))"
    "right_click_down s =
     (forwarded (snd (right_click_down_steps (s, []))), fst (right_click_down_steps (s, [])))"
    "right_click_up s =
     (forwarded (snd (right_click_up_steps (s, []))), fst (right_click_up_steps (s, [])))"
    "double_click s =
     (forwarded (snd (double_click_steps (s, []))), fst (double_click_steps (s, [])))"
    "scroll v d wa s =
     (forwarded (snd (scroll_steps v d wa (s, []))), fst (scroll_steps v d wa (s, [])))"
    "move_to x y s =
     (forwarded (snd (move_to_steps x y (s, []))), fst (move_to_steps x y (s, [])))"
    unfolding steps pairs by simp_all
  show ?thesis
    using pairs steps agree by blast
qed

subsection \<open>Recording and replay\<close>

lemma report_while_recording:
  assumes "m_recording s"
  shows "m_recording (snd (report c s))"
    and "play_loop (m_events (snd (report c s))) = play_loop (m_events s) @ [with_vertical_axis c]"
  using assms
  by (cases c;
      simp add: left_click_down_def left_click_up_def right_click_down_def
        right_click_up_def double_click_def scroll_def move_to_def Let_def play_loop_append)+

lemma report_forwards: "\<not> m_playing s \<Longrightarrow> fst (report c s) = [c]"
  by (cases c)
     (simp_all add: left_click_down_def left_click_up_def right_click_down_def
        right_click_up_def double_click_def scroll_def move_to_def Let_def)

lemma live_forwards: "\<not> m_playing s \<Longrightarrow> fst (live cs s) = cs"
  by (induction cs arbitrary: s) (simp_all add: Let_def report_forwards report_playing)

lemma live_playing: "m_playing (snd (live cs s)) = m_playing s"
  by (induction cs arbitrary: s) (simp_all add: Let_def report_playing)

lemma live_while_recording:
  "m_recording s \<Longrightarrow>
   play_loop (m_events (snd (live cs s))) = play_loop (m_events s) @ map with_vertical_axis cs"
  by (induction cs arbitrary: s) (simp_all add: Let_def report_while_recording)

lemma recorded_replay:
  "play_loop (m_events (recorded cs s)) = map with_vertical_axis cs"
proof -
  have "m_recording (recorder_record True s)" and "m_events (recorder_record True s) = []"
    by (simp_all add: recorder_record_def)
  then have "play_loop (m_events (snd (live cs (recorder_record True s)))) = map with_vertical_axis cs"
    using live_while_recording [of "recorder_record True s" cs] by simp
  then show ?thesis by (simp add: recorded_def recorder_record_def)
qed

lemma recorded_playing: "m_playing (recorded cs s) = m_playing s"
  by (simp add: recorded_def recorder_record_playing live_playing)

lemma play_times_idle:
  "\<not> m_playing s \<Longrightarrow> play_times n s = (replicate n (play_loop (m_events s)), s)"
  by (induction n) (simp_all add: Let_def play_idle)

lemma no_horizontal_scroll_id: "list_all no_horizontal_scroll cs \<Longrightarrow> map with_vertical_axis cs = cs"
proof (induction cs)
  case Nil
  show ?case by simp
next
  case (Cons c cs)
  then show ?case by (cases c) simp_all
qed

lemma play_loop_vertical: "MouseInput_scroll v d waHorizontal \<notin> set (play_loop evs)"
proof (induction evs)
  case Nil
  show ?case by simp
next
  case (Cons evt evs)
  then show ?case by (cases "evt_type evt") simp_all
qed

lemma save_loop_eq: "save_loop evs stream = stream @ concat (map save_line evs)"
  by (induction evs arbitrary: stream) simp_all

subsection \<open>Reading back what was written\<close>

lemma mod10_cases:
  "(n::nat) mod 10 = 0 \<or> n mod 10 = 1 \<or> n mod 10 = 2 \<or> n mod 10 = 3 \<or> n mod 10 = 4 \<or>
   n mod 10 = 5 \<or> n mod 10 = 6 \<or> n mod 10 = 7 \<or> n mod 10 = 8 \<or> n mod 10 = 9"
  by arith

lemma digit_char_props:
  "isdigit (digit_char n)" "digit_val (digit_char n) = n mod 10" "\<not> isspace (digit_char n)"
  "digit_char n \<noteq> CHR ''-''" "digit_char n \<noteq> CHR ''+''"
  using mod10_cases [of n]
  by (auto simp: digit_char_def isdigit_def digit_val_def isspace_def)

lemma nat_of_digits_snoc: "nat_of_digits (ds @ [c]) = 10 * nat_of_digits ds + digit_val c"
  by (simp add: nat_of_digits_def)

lemma string_of_nat_props:
  "string_of_nat n \<noteq> [] \<and> list_all isdigit (string_of_nat n) \<and> nat_of_digits (string_of_nat n) = n"
proof (induction n rule: string_of_nat.induct)
  case (1 n)
  show ?case
  proof (cases "n < 10")
    case True
    then show ?thesis
      by (subst (1 2 3) string_of_nat.simps) (simp add: digit_char_props nat_of_digits_def)
  next
    case False
    with 1 show ?thesis
      by (subst (1 2 3) string_of_nat.simps) (simp add: digit_char_props nat_of_digits_snoc)
  qed
qed

lemma sint_long_bounds: "- (2 ^ 63) \<le> sint (w :: long)" "sint (w :: long) \<le> 2 ^ 63 - 1"
  using sint_ge [of w] sint_lt [of w] by simp_all


lemma takeWhile_digits:
  "list_all isdigit ds \<Longrightarrow> \<not> isdigit c \<Longrightarrow> takeWhile isdigit (ds @ c # rest) = ds"
  by (induction ds) simp_all

lemma dropWhile_digits:
  "list_all isdigit ds \<Longrightarrow> \<not> isdigit c \<Longrightarrow> dropWhile isdigit (ds @ c # rest) = c # rest"
  by (induction ds) simp_all

lemma dropWhile_spaces:
  "list_all isspace ws \<Longrightarrow> \<not> isspace c \<Longrightarrow> dropWhile isspace (ws @ c # rest) = c # rest"
  by (induction ws) simp_all

lemma get_int_nat:
  assumes ws: "list_all isspace ws" and c: "\<not> isdigit c" and hi: "int n \<le> hi" and lo: "lo \<le> int n"
  shows "get_int lo hi (istream_of (ws @ string_of_nat n @ c # rest)) = (istream_of (c # rest), Some (int n))"
proof -
  obtain x xs where d: "string_of_nat n = x # xs"
    using string_of_nat_props [of n] by (cases "string_of_nat n") auto
  have dig: "list_all isdigit (x # xs)" and val: "nat_of_digits (x # xs) = n"
    using string_of_nat_props [of n] unfolding d by simp_all
  have x: "isdigit x" using dig by simp
  have xsp: "\<not> isspace x" and xm: "x \<noteq> CHR ''-''" and xp: "x \<noteq> CHR ''+''"
    using x by (auto simp: isdigit_def isspace_def)
  have r: "dropWhile isspace (ws @ x # xs @ c # rest) = x # xs @ c # rest"
    using ws xsp by (rule dropWhile_spaces)
  have t: "takeWhile isdigit (x # xs @ c # rest) = x # xs"
    using takeWhile_digits [OF dig c, of rest] by simp
  have dr: "dropWhile isdigit (x # xs @ c # rest) = c # rest"
    using dropWhile_digits [OF dig c, of rest] by simp
  show ?thesis
    unfolding d get_int_def
    using hi lo c
    by (simp add: istream_of_def good_def Let_def r t dr val xm xp del: takeWhile.simps dropWhile.simps)
qed

lemma get_int_neg:
  assumes ws: "list_all isspace ws" and c: "\<not> isdigit c" and hi: "- int n \<le> hi" and lo: "lo \<le> - int n"
  shows "get_int lo hi (istream_of (ws @ CHR ''-'' # string_of_nat n @ c # rest)) = (istream_of (c # rest), Some (- int n))"
proof -
  have dig: "list_all isdigit (string_of_nat n)" and val: "nat_of_digits (string_of_nat n) = n"
    and ne: "string_of_nat n \<noteq> []"
    using string_of_nat_props [of n] by simp_all
  have msp: "\<not> isspace CHR ''-''" by (simp add: isspace_def)
  have r: "dropWhile isspace (ws @ CHR ''-'' # string_of_nat n @ c # rest) = CHR ''-'' # string_of_nat n @ c # rest"
    using ws msp by (rule dropWhile_spaces)
  have t: "takeWhile isdigit (string_of_nat n @ c # rest) = string_of_nat n"
    using dig c by (rule takeWhile_digits)
  have dr: "dropWhile isdigit (string_of_nat n @ c # rest) = c # rest"
    using dig c by (rule dropWhile_digits)
  show ?thesis
    unfolding get_int_def
    using hi lo ne c
    by (simp add: istream_of_def good_def Let_def r t dr val)
qed

lemma get_int_printed:
  assumes "list_all isspace ws" and "\<not> isdigit c" and "i \<le> hi" and "lo \<le> i"
  shows "get_int lo hi (istream_of (ws @ string_of_int i @ c # rest)) = (istream_of (c # rest), Some i)"
proof (cases "i < 0")
  case True
  then have i: "i = - int (nat (- i))" by simp
  show ?thesis
    using True get_int_neg [OF assms(1,2), of "nat (- i)" hi lo rest] assms(3,4)
    by (simp add: string_of_int_def)
next
  case False
  show ?thesis
    using False get_int_nat [OF assms(1,2), of "nat i" hi lo rest] assms(3,4)
    by (simp add: string_of_int_def)
qed


lemma named_kind_roundtrip:
  "named_kind t \<Longrightarrow> EEvents_of_int (sint (word_of_int (int_of_EEvents t) :: cint)) = t"
  by (cases t) (simp_all add: EEvents_of_int_def)

lemma named_kind_range: "named_kind t \<Longrightarrow> - (2 ^ 31) \<le> int_of_EEvents t \<and> int_of_EEvents t \<le> 2 ^ 31 - 1"
  by (cases t) simp_all

lemma extract_int_printed:
  assumes "list_all isspace ws" and "\<not> isdigit c" and "- (2 ^ 31) \<le> i" and "i \<le> 2 ^ 31 - 1"
  shows "extract_int (istream_of (ws @ string_of_int i @ c # rest)) v = (istream_of (c # rest), word_of_int i)"
  using get_int_printed [OF assms(1,2), of i "2 ^ 31 - 1" "- (2 ^ 31)" rest] assms(3,4)
  by (simp add: extract_int_def)

lemma extract_long_printed:
  assumes "list_all isspace ws" and "\<not> isdigit c"
  shows "extract_long (istream_of (ws @ string_of_int (sint w) @ c # rest)) v = (istream_of (c # rest), w)"
  using get_int_printed [OF assms(1,2), of "sint w" "2 ^ 63 - 1" "- (2 ^ 63)" rest] sint_long_bounds [of w]
  by (simp add: extract_long_def)

lemma load_body_saved_line:
  assumes ws: "list_all isspace ws" and k: "named_kind (evt_type evt)"
  shows "load_body junk (istream_of (ws @ save_line evt @ tail)) = (istream_of (endl @ tail), evt)"
proof -
  obtain t0 a0 b0 where j: "junk = (t0, a0, b0)" by (cases junk)
  have sp: "\<not> isdigit CHR '' ''" and nl: "\<not> isdigit (CHR 0x0A)" and sps: "list_all isspace '' ''"
    by (simp_all add: isdigit_def isspace_def)
  let ?B = "string_of_int (sint (evt_b evt)) @ CHR 0x0A # tail"
  let ?A = "string_of_int (sint (evt_a evt)) @ CHR '' '' # ?B"
  have buf: "ws @ save_line evt @ tail = ws @ string_of_int (int_of_EEvents (evt_type evt)) @ CHR '' '' # ?A"
    by (simp add: save_line_def endl_def)
  have 1: "extract_int (istream_of (ws @ save_line evt @ tail)) t0 =
      (istream_of ('' '' @ ?A), word_of_int (int_of_EEvents (evt_type evt)))"
    unfolding buf using extract_int_printed [OF ws sp, of "int_of_EEvents (evt_type evt)" ?A t0]
      named_kind_range [OF k] by simp
  have 2: "extract_long (istream_of ('' '' @ ?A)) a0 = (istream_of ('' '' @ ?B), evt_a evt)"
    using extract_long_printed [OF sps sp, of "evt_a evt" ?B a0] by simp
  have 3: "extract_long (istream_of ('' '' @ ?B)) b0 = (istream_of (endl @ tail), evt_b evt)"
    using extract_long_printed [OF sps nl, of "evt_b evt" tail b0] by (simp add: endl_def)
  show ?thesis
    unfolding load_body_def j by (simp add: 1 2 3 named_kind_roundtrip [OF k] del: append.simps)
qed

lemma load_body_at_end:
  assumes "list_all isspace ws"
  shows "load_body (t0, a0, b0) (istream_of ws) =
     (\<lparr>buf = [], eofbit = True, failbit = True\<rparr>, Event (EEvents_of_int (sint t0)) a0 b0)"
proof -
  have r: "dropWhile isspace ws = []" using assms by (induction ws) simp_all
  show ?thesis
    by (simp add: load_body_def extract_int_def extract_long_def get_int_def good_def
          istream_of_def Let_def r)
qed

lemma load_loop_saved:
  assumes "list_all isspace ws" and "list_all (\<lambda>evt. named_kind (evt_type evt)) evs"
  shows "load_loop (t0, a0, b0) (istream_of (ws @ concat (map save_line evs))) acc =
     (\<lparr>buf = [], eofbit = True, failbit = True\<rparr>, acc @ evs @ [Event (EEvents_of_int (sint t0)) a0 b0])"
  using assms
proof (induction evs arbitrary: ws acc)
  case Nil
  have g: "good (istream_of ws)" by (simp add: good_def istream_of_def)
  have ng: "\<not> good \<lparr>buf = [], eofbit = True, failbit = True\<rparr>" by (simp add: good_def)
  show ?case
    using g ng Nil.prems(1)
    by (simp add: load_loop.simps [of _ "istream_of ws"] load_body_at_end
          load_loop.simps [of _ "\<lparr>buf = [], eofbit = True, failbit = True\<rparr>"])
next
  case (Cons evt evs)
  have g: "good (istream_of (ws @ save_line evt @ concat (map save_line evs)))"
    by (simp add: good_def istream_of_def)
  have k: "named_kind (evt_type evt)" and ks: "list_all (\<lambda>evt. named_kind (evt_type evt)) evs"
    using Cons.prems(2) by simp_all
  have e: "list_all isspace endl" by (simp add: endl_def isspace_def)
  have step: "load_loop (t0, a0, b0) (istream_of (ws @ save_line evt @ concat (map save_line evs))) acc =
      load_loop (t0, a0, b0) (istream_of (endl @ concat (map save_line evs))) (acc @ [evt])"
    using g
    by (subst load_loop.simps) (simp add: load_body_saved_line [OF Cons.prems(1) k])
  show ?case
    using step Cons.IH [OF e ks, of "acc @ [evt]"] by simp
qed

subsection \<open>The claims on recording and replay\<close>

text \<open>
  C1, as the code has it. In every state that complete calls of the report operations,
  \<^verbatim>\<open>record\<close>, \<^verbatim>\<open>play\<close> and \<^verbatim>\<open>load\<close> reach from a new recorder, Playing is false, so
  Recording and Playing are not both true between calls. Neither \<^verbatim>\<open>play\<close> nor \<^verbatim>\<open>record\<close>
  looks at the other flag: \<^verbatim>\<open>play()\<close> sets Playing for the time of its loop and leaves
  Recording and the log alone, dispatches every logged event, and returns the recorder as
  it was at the call; \<^verbatim>\<open>record(true)\<close> sets Recording and clears the log in any state.
\<close>

theorem recorder_flags_between_calls:
  "\<not> m_playing (run ops RecorderMouseInput_new)
   \<and> \<not> (m_recording (run ops RecorderMouseInput_new) \<and> m_playing (run ops RecorderMouseInput_new))
   \<and> play (run ops RecorderMouseInput_new) =
       (play_loop (m_events (run ops RecorderMouseInput_new)), run ops RecorderMouseInput_new)
   \<and> play_running s = s\<lparr>m_playing := True\<rparr>
   \<and> recorder_record True s = s\<lparr>m_recording := True, m_events := []\<rparr>"
proof -
  have idle: "\<not> m_playing (run ops RecorderMouseInput_new)"
    by (rule run_not_playing) (simp add: RecorderMouseInput_new_def)
  show ?thesis
    using idle by (simp add: play_idle play_running_def recorder_record_def)
qed

text \<open>
  C1 as stated fails. After \<^verbatim>\<open>record(true)\<close>, a call of \<^verbatim>\<open>play()\<close> runs its loop with
  both flags true; called while recording with one event in the log, \<^verbatim>\<open>play()\<close> is not
  rejected but dispatches the event; and \<^verbatim>\<open>record(true)\<close> in a Playing state changes the
  recorder (it clears the log).
\<close>

theorem recording_and_playing_counterexample:
  "m_recording (play_running (recorder_record True RecorderMouseInput_new))
   \<and> m_playing (play_running (recorder_record True RecorderMouseInput_new))
   \<and> m_recording (snd (move_to 1 2 (recorder_record True RecorderMouseInput_new)))
   \<and> fst (play (snd (move_to 1 2 (recorder_record True RecorderMouseInput_new)))) = [MouseInput_move_to 1 2]
   \<and> m_playing (play_running (recorded [MouseInput_move_to 1 2] RecorderMouseInput_new))
   \<and> recorder_record True (play_running (recorded [MouseInput_move_to 1 2] RecorderMouseInput_new))
       \<noteq> play_running (recorded [MouseInput_move_to 1 2] RecorderMouseInput_new)"
  by (simp add: play_running_def recorder_record_def RecorderMouseInput_new_def move_to_def
        play_def recorded_def Let_def)

text \<open>
  C2, as the code has it. A live interaction \<open>cs\<close> recorded between \<^verbatim>\<open>record(true)\<close> and
  \<^verbatim>\<open>record(false)\<close> by a recorder that is not playing is forwarded call by call as it
  comes in, and \<^verbatim>\<open>play()\<close> afterwards dispatches the same calls with the same parameters
  in the same order, except that every scroll goes out with the vertical wheel axis. So
  when the interaction has no scroll on the horizontal axis, the listener is driven from
  the same scene to the same scene as live. Every invocation of \<^verbatim>\<open>play()\<close> dispatches that
  sequence again and leaves the recorder as it was.
\<close>

theorem play_replays_recorded_calls:
  assumes "\<not> m_playing s"
  shows "fst (live cs (recorder_record True s)) = cs
   \<and> play (recorded cs s) = (map with_vertical_axis cs, recorded cs s)
   \<and> play_times n (recorded cs s) = (replicate n (map with_vertical_axis cs), recorded cs s)
   \<and> (list_all no_horizontal_scroll cs \<longrightarrow>
        scene_after ctl (fst (play (recorded cs s))) sc =
        scene_after ctl (fst (live cs (recorder_record True s))) sc)"
proof -
  have idle: "\<not> m_playing (recorded cs s)"
    using assms by (simp add: recorded_playing)
  have fwd: "fst (live cs (recorder_record True s)) = cs"
    using assms by (simp add: live_forwards recorder_record_playing)
  have pl: "play (recorded cs s) = (map with_vertical_axis cs, recorded cs s)"
    using idle by (simp add: play_idle recorded_replay)
  have pt: "play_times n (recorded cs s) = (replicate n (map with_vertical_axis cs), recorded cs s)"
    using idle by (simp add: play_times_idle recorded_replay)
  show ?thesis
    using fwd pl pt by (simp add: no_horizontal_scroll_id)
qed

theorem play_replays_recorded_calls_witness:
  "\<not> m_playing RecorderMouseInput_new
   \<and> list_all no_horizontal_scroll
        [MouseInput_move_to 10 20, MouseInput_left_click_down, MouseInput_left_click_up]
   \<and> fst (play (recorded
        [MouseInput_move_to 10 20, MouseInput_left_click_down, MouseInput_left_click_up]
        RecorderMouseInput_new)) =
       [MouseInput_move_to 10 20, MouseInput_left_click_down, MouseInput_left_click_up]
   \<and> scene_after (\<lambda>c sc. sc @ [c])
        (fst (play (recorded
          [MouseInput_move_to 10 20, MouseInput_left_click_down, MouseInput_left_click_up]
          RecorderMouseInput_new))) [] =
       scene_after (\<lambda>c sc. sc @ [c])
        (fst (live [MouseInput_move_to 10 20, MouseInput_left_click_down, MouseInput_left_click_up]
          (recorder_record True RecorderMouseInput_new))) []"
proof -
  have idle: "\<not> m_playing RecorderMouseInput_new"
    by (simp add: RecorderMouseInput_new_def)
  have ok: "list_all no_horizontal_scroll
        [MouseInput_move_to 10 20, MouseInput_left_click_down, MouseInput_left_click_up]"
    by simp
  show ?thesis
    using idle ok
      play_replays_recorded_calls [OF idle,
        of "[MouseInput_move_to 10 20, MouseInput_left_click_down, MouseInput_left_click_up]"
           0 "\<lambda>c sc. sc @ [c]" "[]"]
    by simp
qed

text \<open>
  C2 as stated fails on a scroll of the horizontal wheel axis: live, the dispatcher gets
  the scroll with the horizontal axis; replayed, with the vertical one.
\<close>

theorem play_horizontal_scroll_counterexample:
  "fst (live [MouseInput_scroll 120 120 waHorizontal] (recorder_record True RecorderMouseInput_new))
     = [MouseInput_scroll 120 120 waHorizontal]
   \<and> fst (play (recorded [MouseInput_scroll 120 120 waHorizontal] RecorderMouseInput_new))
     = [MouseInput_scroll 120 120 waVertical]
   \<and> fst (play (recorded [MouseInput_scroll 120 120 waHorizontal] RecorderMouseInput_new))
     \<noteq> fst (live [MouseInput_scroll 120 120 waHorizontal] (recorder_record True RecorderMouseInput_new))"
  by (simp add: recorder_record_def RecorderMouseInput_new_def scroll_def play_def
        play_running_def recorded_def Let_def)

text \<open>
  C9. \<^verbatim>\<open>scroll\<close> logs the rotation and the delta only: the recorder it leaves does not
  depend on the wheel axis of the call. \<^verbatim>\<open>play\<close> dispatches a logged scroll with the
  vertical axis, so no call it makes is a scroll with the horizontal axis.
\<close>

theorem scroll_axis_not_logged:
  "snd (scroll v d wa s) = snd (scroll v d waVertical s)
   \<and> m_events (snd (scroll v d wa s)) =
       (if m_recording s then m_events s @ [Event SCRL v d] else m_events s)
   \<and> play_event (Event SCRL v d) = [MouseInput_scroll v d waVertical]
   \<and> fst (play (recorded [MouseInput_scroll v d wa] RecorderMouseInput_new)) =
       [MouseInput_scroll v d waVertical]
   \<and> MouseInput_scroll v' d' waHorizontal \<notin> set (fst (play s))"
  by (simp add: scroll_def Let_def play_def play_running_def play_loop_vertical recorded_def
        recorder_record_def RecorderMouseInput_new_def)

text \<open>
  C8. \<^verbatim>\<open>save\<close> appends to the stream, for each event of the log in log order, one line:
  the kind as a decimal integer, a space, \<^verbatim>\<open>a\<close>, a space, \<^verbatim>\<open>b\<close>, and the line end. The
  integer of a kind is its position in the declaration of the enumeration, from 0.
\<close>

theorem save_writes_lines:
  "save s stream =
     stream @ concat (map (\<lambda>evt.
        string_of_int (int_of_EEvents (evt_type evt)) @ '' '' @
        string_of_int (sint (evt_a evt)) @ '' '' @
        string_of_int (sint (evt_b evt)) @ endl) (m_events s))
   \<and> int_of_EEvents LCLK_U = 0 \<and> int_of_EEvents RCLK_U = 1 \<and> int_of_EEvents LCLK_D = 2
   \<and> int_of_EEvents RCLK_D = 3 \<and> int_of_EEvents DDCLK = 4 \<and> int_of_EEvents SCRL = 5
   \<and> int_of_EEvents MV = 6
   \<and> save \<lparr>m_events = [Event MV 10 20, Event LCLK_D 0 0, Event SCRL (- 120) 120],
            m_recording = False, m_playing = False\<rparr> [] =
       ''6 10 20'' @ endl @ ''2 0 0'' @ endl @ ''5 -120 120'' @ endl"
proof -
  have lines: "save_line = (\<lambda>evt.
        string_of_int (int_of_EEvents (evt_type evt)) @ '' '' @
        string_of_int (sint (evt_a evt)) @ '' '' @
        string_of_int (sint (evt_b evt)) @ endl)"
    by (rule ext) (simp add: save_line_def)
  have gen: "save s stream = stream @ concat (map save_line (m_events s))"
    by (simp add: save_def save_loop_eq)
  have ex: "save \<lparr>m_events = [Event MV 10 20, Event LCLK_D 0 0, Event SCRL (- 120) 120],
            m_recording = False, m_playing = False\<rparr> [] =
       ''6 10 20'' @ endl @ ''2 0 0'' @ endl @ ''5 -120 120'' @ endl"
    by code_simp
  show ?thesis
    using gen ex unfolding lines by simp
qed

subsection \<open>The claims on the saved log\<close>

lemma report_named:
  "list_all (\<lambda>evt. named_kind (evt_type evt)) (m_events s) \<Longrightarrow>
   list_all (\<lambda>evt. named_kind (evt_type evt)) (m_events (snd (report c s)))"
  by (cases c)
     (simp_all add: left_click_down_def left_click_up_def right_click_down_def
        right_click_up_def double_click_def scroll_def move_to_def Let_def)

lemma live_named:
  "list_all (\<lambda>evt. named_kind (evt_type evt)) (m_events s) \<Longrightarrow>
   list_all (\<lambda>evt. named_kind (evt_type evt)) (m_events (snd (live cs s)))"
  by (induction cs arbitrary: s) (simp_all add: Let_def report_named)

lemma recorded_named: "list_all (\<lambda>evt. named_kind (evt_type evt)) (m_events (recorded cs s))"
proof -
  have "list_all (\<lambda>evt. named_kind (evt_type evt)) (m_events (recorder_record True s))"
    by (simp add: recorder_record_def)
  then have "list_all (\<lambda>evt. named_kind (evt_type evt)) (m_events (snd (live cs (recorder_record True s))))"
    by (rule live_named)
  then show ?thesis by (simp add: recorded_def recorder_record_def)
qed

lemma report_length:
  "m_recording s \<Longrightarrow>
   m_recording (snd (report c s)) \<and> length (m_events (snd (report c s))) = Suc (length (m_events s))"
  by (cases c)
     (simp_all add: left_click_down_def left_click_up_def right_click_down_def
        right_click_up_def double_click_def scroll_def move_to_def Let_def)

lemma live_length:
  "m_recording s \<Longrightarrow> length (m_events (snd (live cs s))) = length (m_events s) + length cs"
  by (induction cs arbitrary: s) (simp_all add: Let_def report_length)

lemma recorded_length: "length (m_events (recorded cs s)) = length cs"
proof -
  have "m_recording (recorder_record True s)" and "m_events (recorder_record True s) = []"
    by (simp_all add: recorder_record_def)
  then have "length (m_events (snd (live cs (recorder_record True s)))) = length cs"
    using live_length [of "recorder_record True s" cs] by simp
  then show ?thesis by (simp add: recorded_def recorder_record_def)
qed

text \<open>
  C3 fails on the code. A log of \<open>N\<close> events recorded from any live interaction, saved
  to an empty stream and loaded from the text written, comes back as \<open>N + 1\<close> events:
  the \<open>N\<close> recorded ones, in order, and one more. After the last line the stream is still
  good (the line end has not been read), so the loop of \<^verbatim>\<open>load\<close> runs once more; the
  extractions fail and the event is built from the locals, which were never set:
  \<open>t0\<close>, \<open>a0\<close>, \<open>b0\<close> are what they hold.
\<close>

theorem load_after_save_appends_event:
  "length (m_events (recorded cs s)) = length cs
   \<and> m_events (snd (load (t0, a0, b0) (istream_of (save (recorded cs s) [])) s')) =
       m_events (recorded cs s) @ [Event (EEvents_of_int (sint t0)) a0 b0]
   \<and> length (m_events (snd (load (t0, a0, b0) (istream_of (save (recorded cs s) [])) s'))) =
       length cs + 1"
proof -
  have sp: "list_all isspace []" by simp
  have "load_loop (t0, a0, b0) (istream_of ([] @ concat (map save_line (m_events (recorded cs s))))) [] =
     (\<lparr>buf = [], eofbit = True, failbit = True\<rparr>,
      [] @ m_events (recorded cs s) @ [Event (EEvents_of_int (sint t0)) a0 b0])"
    using sp recorded_named by (rule load_loop_saved)
  then have l: "m_events (snd (load (t0, a0, b0) (istream_of (save (recorded cs s) [])) s')) =
       m_events (recorded cs s) @ [Event (EEvents_of_int (sint t0)) a0 b0]"
    by (simp add: load_def save_def save_loop_eq Let_def)
  show ?thesis
    unfolding l by (simp add: recorded_length)
qed

theorem load_after_save_appends_event_witness:
  "m_events (recorded [MouseInput_move_to 10 20, MouseInput_left_click_down, MouseInput_left_click_up]
      RecorderMouseInput_new) = [Event MV 10 20, Event LCLK_D 0 0, Event LCLK_U 0 0]
   \<and> m_events (snd (load (7, 8, 9)
        (istream_of (save (recorded
          [MouseInput_move_to 10 20, MouseInput_left_click_down, MouseInput_left_click_up]
          RecorderMouseInput_new) []))
        RecorderMouseInput_new)) =
       [Event MV 10 20, Event LCLK_D 0 0, Event LCLK_U 0 0, Event (Unnamed 7) 8 9]"
proof -
  have r: "m_events (recorded [MouseInput_move_to 10 20, MouseInput_left_click_down, MouseInput_left_click_up]
      RecorderMouseInput_new) = [Event MV 10 20, Event LCLK_D 0 0, Event LCLK_U 0 0]"
    by (simp add: recorded_def recorder_record_def RecorderMouseInput_new_def move_to_def
          left_click_down_def left_click_up_def Let_def)
  show ?thesis
    using load_after_save_appends_event
      [of "[MouseInput_move_to 10 20, MouseInput_left_click_down, MouseInput_left_click_up]"
          RecorderMouseInput_new 7 8 9 RecorderMouseInput_new]
    by (simp add: r EEvents_of_int_def)
qed

text \<open>
  C4 fails on the code. \<^verbatim>\<open>load\<close> raises nothing and keeps the events read before, but
  every pass of its loop appends an event, also the pass that finds the end of the stream
  or an incomplete record. On an empty stream the log is one event made of the unset
  locals; after a complete line and its line end, one such event follows; a last record of
  two tokens gives an event with the unset \<^verbatim>\<open>b\<close>; a token that is no number gives an event
  with 0 for it. Only a text that ends right after the third number loads as written.
\<close>

theorem load_appends_event_for_incomplete_record:
  "m_events (snd (load (t0, a0, b0) (istream_of []) s)) = [Event (EEvents_of_int (sint t0)) a0 b0]
   \<and> m_events (snd (load (t0, a0, b0) (istream_of (''6 10 20'' @ endl)) s)) =
       [Event MV 10 20, Event (EEvents_of_int (sint t0)) a0 b0]
   \<and> m_events (snd (load (t0, a0, b0) (istream_of (''6 10 20'' @ endl @ ''5 3'')) s)) =
       [Event MV 10 20, Event SCRL 3 b0]
   \<and> m_events (snd (load (t0, a0, b0) (istream_of (''6 10 20'' @ endl @ ''5 x 3'')) s)) =
       [Event MV 10 20, Event SCRL 0 b0]
   \<and> m_events (snd (load (t0, a0, b0) (istream_of ''6 10 20'') s)) = [Event MV 10 20]"
proof -
  have 1: "snd (load_loop (t0, a0, b0) (istream_of []) []) = [Event (EEvents_of_int (sint t0)) a0 b0]"
    by code_simp
  have 2: "snd (load_loop (t0, a0, b0) (istream_of (''6 10 20'' @ endl)) []) =
       [Event MV 10 20, Event (EEvents_of_int (sint t0)) a0 b0]"
    by code_simp
  have 3: "snd (load_loop (t0, a0, b0) (istream_of (''6 10 20'' @ endl @ ''5 3'')) []) =
       [Event MV 10 20, Event SCRL 3 b0]"
    by code_simp
  have 4: "snd (load_loop (t0, a0, b0) (istream_of (''6 10 20'' @ endl @ ''5 x 3'')) []) =
       [Event MV 10 20, Event SCRL 0 b0]"
    by code_simp
  have 5: "snd (load_loop (t0, a0, b0) (istream_of ''6 10 20'') []) = [Event MV 10 20]"
    by code_simp
  have l: "m_events (snd (load (t0, a0, b0) st s)) = snd (load_loop (t0, a0, b0) st [])" for st
    by (simp add: load_def Let_def)
  show ?thesis
    by (simp only: l 1 2 3 4 5)
qed

section \<open>Properties of the frame\<close>

text \<open>
  C7. When the value of the convexity control is zero or negative, the handler leaves
  the canvas as it is: the convexity read from the display's settings afterwards is the
  one before, and no value is handed to \<^verbatim>\<open>apply_csgsettings\<close>.
\<close>

theorem convexity_not_positive_rejected:
  assumes "sint c \<le> 0"
  shows "convexity_spin_handler c canvas = canvas
   \<and> get_convexity (get_csgsettings (convexity_spin_handler c canvas)) =
       get_convexity (get_csgsettings canvas)
   \<and> applied (convexity_spin_handler c canvas) = applied canvas"
  using assms by (simp add: convexity_spin_handler_def Let_def)

theorem convexity_not_positive_rejected_witness:
  "sint (0 :: cint) \<le> 0
   \<and> get_convexity (get_csgsettings (convexity_spin_handler 0
        \<lparr>m_csgsettings = \<lparr>enabled = True, algorithm = Auto, depthAlgorithm = DepthOff,
            optimization = OptDefault, convexity = 5\<rparr>, applied = []\<rparr>)) = 5
   \<and> applied (convexity_spin_handler 0
        \<lparr>m_csgsettings = \<lparr>enabled = True, algorithm = Auto, depthAlgorithm = DepthOff,
            optimization = OptDefault, convexity = 5\<rparr>, applied = []\<rparr>) = []"
proof -
  have h: "sint (0 :: cint) \<le> 0" by simp
  show ?thesis
    using h convexity_not_positive_rejected [OF h,
      of "\<lparr>m_csgsettings = \<lparr>enabled = True, algorithm = Auto, depthAlgorithm = DepthOff,
            optimization = OptDefault, convexity = 5\<rparr>, applied = []\<rparr>"]
    by (simp add: get_convexity_def get_csgsettings_def)
qed

text \<open>
  C10. With an empty job slot the handler of the Record button only sets the status
  text to "No project loaded!": the recorder, with its log and flags, and every other
  part of the frame stay as they are, whatever the state of the button.
\<close>

theorem record_without_project:
  assumes "m_ui_job f = None"
  shows "record_btn_handler pressed has_camera dlg stream_good f =
       f\<lparr>m_stbar_status_text := ''No project loaded!''\<rparr>
   \<and> m_mouse (record_btn_handler pressed has_camera dlg stream_good f) = m_mouse f
   \<and> m_stbar_status_text (record_btn_handler pressed has_camera dlg stream_good f) =
       ''No project loaded!''"
  using assms by (simp add: record_btn_handler_def)

theorem record_without_project_witness:
  "m_ui_job MyFrame_new = None
   \<and> m_mouse (record_btn_handler True True None True MyFrame_new) = RecorderMouseInput_new
   \<and> m_stbar_status_text (record_btn_handler True True None True MyFrame_new) =
       ''No project loaded!''"
proof -
  have h: "m_ui_job MyFrame_new = None" by (simp add: MyFrame_new_def)
  show ?thesis
    using h record_without_project [OF h, of True True None True]
    by (simp add: MyFrame_new_def)
qed







end
